theory Spec2Isabelle
  imports Main "HOL-Library.Word"
begin

unbundle bit_operations_syntax

section \<open>Python string primitives used by compiler.py\<close>

text \<open>
  Script text is modelled as \<open>string\<close>. DuckyScript is ASCII text, and the three
  symbol tables of compiler.py hold ASCII keys only; case conversion is therefore
  modelled on the ASCII letters, every other character being its own upper and lower
  case. The white space of \<open>str.strip()\<close> and \<open>str.split()\<close> is the set of characters
  for which \<open>str.isspace()\<close> holds (code points 9-13, 28-32, 133 and 160 below 256).
\<close>

definition is_space :: "char \<Rightarrow> bool" where
  "is_space c = ((of_char c :: nat) \<in> {9, 10, 11, 12, 13, 28, 29, 30, 31, 32, 133, 160})"

definition ascii_lowercase :: string where
  "ascii_lowercase = ''abcdefghijklmnopqrstuvwxyz''"

definition ascii_uppercase :: string where
  "ascii_uppercase = ''ABCDEFGHIJKLMNOPQRSTUVWXYZ''"

definition upper_char :: "char \<Rightarrow> char" where
  "upper_char c = (case map_of (zip ascii_lowercase ascii_uppercase) c of Some u \<Rightarrow> u | None \<Rightarrow> c)"

definition lower_char :: "char \<Rightarrow> char" where
  "lower_char c = (case map_of (zip ascii_uppercase ascii_lowercase) c of Some l \<Rightarrow> l | None \<Rightarrow> c)"

text \<open>\<open>s.upper()\<close> and \<open>s.lower()\<close>.\<close>

definition upper :: "string \<Rightarrow> string" where
  "upper s = map upper_char s"

definition lower :: "string \<Rightarrow> string" where
  "lower s = map lower_char s"

text \<open>\<open>s.strip()\<close>: white space removed at both ends.\<close>

definition strip :: "string \<Rightarrow> string" where
  "strip s = rev (dropWhile is_space (rev (dropWhile is_space s)))"

text \<open>
  \<open>s.split()\<close>: the maximal runs of non-space characters, in order; never an empty
  token. \<open>cur\<close> is the token being read.
\<close>

fun split_from :: "string \<Rightarrow> string \<Rightarrow> string list" where
  "split_from [] cur = (if cur = [] then [] else [cur])"
| "split_from (c # cs) cur =
     (if is_space c then (if cur = [] then split_from cs [] else cur # split_from cs [])
      else split_from cs (cur @ [c]))"

definition split :: "string \<Rightarrow> string list" where
  "split s = split_from s []"

text \<open>\<open>s.startswith(p)\<close>.\<close>

fun startswith :: "string \<Rightarrow> string \<Rightarrow> bool" where
  "startswith s [] = True"
| "startswith [] (p # ps) = False"
| "startswith (c # cs) (p # ps) = (c = p \<and> startswith cs ps)"

text \<open>\<open>t in s\<close> for two strings: \<open>t\<close> occurs in \<open>s\<close> as a contiguous substring.\<close>

fun str_contains :: "string \<Rightarrow> string \<Rightarrow> bool" where
  "str_contains [] t = (t = [])"
| "str_contains (c # cs) t = (startswith (c # cs) t \<or> str_contains cs t)"

text \<open>
  The exceptions a line can raise inside the \<open>try\<close> block of \<open>compile_script\<close>:
  \<open>int()\<close> on a malformed numeral, \<open>line.split()[1]\<close> on a line of one token, and
  a dictionary indexed at a key it does not hold.
\<close>

datatype exn = ValueError | IndexError | KeyError

text \<open>
  \<open>int(tok)\<close> on a token without white space: an optional sign, then decimal digits
  in which single underscores may stand between two digits. Python integers are
  unbounded, so the value is an \<open>int\<close>. (The bound that recent interpreters put on
  the number of digits of a numeral, 4300 unless configured otherwise, is left out.)
\<close>

definition is_digit :: "char \<Rightarrow> bool" where
  "is_digit c = (let n = (of_char c :: nat) in 48 \<le> n \<and> n \<le> 57)"

definition digit_val :: "char \<Rightarrow> int" where
  "digit_val c = int (of_char c) - 48"

fun int_digits :: "string \<Rightarrow> int \<Rightarrow> exn + int" where
  "int_digits [] acc = Inr acc"
| "int_digits [c] acc = (if is_digit c then Inr (acc * 10 + digit_val c) else Inl ValueError)"
| "int_digits (c # d # ds) acc =
     (if is_digit c then int_digits (d # ds) (acc * 10 + digit_val c)
      else if c = CHR ''_'' \<and> is_digit d then int_digits ds (acc * 10 + digit_val d)
      else Inl ValueError)"

definition int_unsigned :: "string \<Rightarrow> exn + int" where
  "int_unsigned s = (case s of [] \<Rightarrow> Inl ValueError
     | c # cs \<Rightarrow> if is_digit c then int_digits cs (digit_val c) else Inl ValueError)"

definition py_int :: "string \<Rightarrow> exn + int" where
  "py_int s = (case s of [] \<Rightarrow> Inl ValueError
     | c # cs \<Rightarrow>
         if c = CHR ''-'' then (case int_unsigned cs of Inl e \<Rightarrow> Inl e | Inr v \<Rightarrow> Inr (- v))
         else if c = CHR ''+'' then int_unsigned cs
         else int_unsigned s)"

section \<open>Symbol tables\<close>

text \<open>The dictionaries \<open>KEYCODES\<close>, \<open>SHIFT_CHARS\<close> and \<open>SPECIAL_KEYS\<close>, keyed by strings.\<close>

definition KEYCODES :: "(string \<times> int) list" where
  "KEYCODES =
    [(''a'', 0x04), (''b'', 0x05), (''c'', 0x06), (''d'', 0x07), (''e'', 0x08), (''f'', 0x09),
     (''g'', 0x0a), (''h'', 0x0b), (''i'', 0x0c), (''j'', 0x0d), (''k'', 0x0e), (''l'', 0x0f),
     (''m'', 0x10), (''n'', 0x11), (''o'', 0x12), (''p'', 0x13), (''q'', 0x14), (''r'', 0x15),
     (''s'', 0x16), (''t'', 0x17), (''u'', 0x18), (''v'', 0x19), (''w'', 0x1a), (''x'', 0x1b),
     (''y'', 0x1c), (''z'', 0x1d),
     (''1'', 0x1e), (''2'', 0x1f), (''3'', 0x20), (''4'', 0x21), (''5'', 0x22),
     (''6'', 0x23), (''7'', 0x24), (''8'', 0x25), (''9'', 0x26), (''0'', 0x27),
     ('','', 0x36), (''.'', 0x37), (''/'', 0x38), ('';'', 0x33), ([CHR 0x27], 0x34),
     (''['', 0x2f), ('']'', 0x30), ([CHR 0x5C], 0x31), (''-'', 0x2d), (''='', 0x2e),
     (''`'', 0x35), ('' '', 0x2c)]"

definition SHIFT_CHARS :: "(string \<times> int) list" where
  "SHIFT_CHARS =
    [(''A'', 0x04), (''B'', 0x05), (''C'', 0x06), (''D'', 0x07), (''E'', 0x08), (''F'', 0x09),
     (''G'', 0x0a), (''H'', 0x0b), (''I'', 0x0c), (''J'', 0x0d), (''K'', 0x0e), (''L'', 0x0f),
     (''M'', 0x10), (''N'', 0x11), (''O'', 0x12), (''P'', 0x13), (''Q'', 0x14), (''R'', 0x15),
     (''S'', 0x16), (''T'', 0x17), (''U'', 0x18), (''V'', 0x19), (''W'', 0x1a), (''X'', 0x1b),
     (''Y'', 0x1c), (''Z'', 0x1d),
     (''!'', 0x1e), (''@'', 0x1f), (''#'', 0x20), (''$'', 0x21), (''%'', 0x22),
     (''^'', 0x23), (''&'', 0x24), (''*'', 0x25), (''('', 0x26), ('')'', 0x27),
     (''<'', 0x36), (''>'', 0x37), (''?'', 0x38), ('':'', 0x33), ([CHR 0x22], 0x34),
     (''{'', 0x2f), (''}'', 0x30), (''|'', 0x31), (''_'', 0x2d), (''+'', 0x2e),
     (''~'', 0x35)]"

definition SPECIAL_KEYS :: "(string \<times> int) list" where
  "SPECIAL_KEYS =
    [(''ENTER'', 0x28), (''RETURN'', 0x28),
     (''ESCAPE'', 0x29), (''ESC'', 0x29),
     (''BACKSPACE'', 0x2a), (''BSPACE'', 0x2a),
     (''TAB'', 0x2b),
     (''SPACE'', 0x2c),
     (''CAPSLOCK'', 0x39),
     (''F1'', 0x3a), (''F2'', 0x3b), (''F3'', 0x3c), (''F4'', 0x3d), (''F5'', 0x3e), (''F6'', 0x3f),
     (''F7'', 0x40), (''F8'', 0x41), (''F9'', 0x42), (''F10'', 0x43), (''F11'', 0x44), (''F12'', 0x45),
     (''PRINTSCREEN'', 0x46),
     (''SCROLLLOCK'', 0x47),
     (''PAUSE'', 0x48), (''BREAK'', 0x48),
     (''INSERT'', 0x49),
     (''HOME'', 0x4a),
     (''PAGEUP'', 0x4b),
     (''DELETE'', 0x4c), (''DEL'', 0x4c),
     (''END'', 0x4d),
     (''PAGEDOWN'', 0x4e),
     (''RIGHT'', 0x4f), (''RIGHTARROW'', 0x4f),
     (''LEFT'', 0x50), (''LEFTARROW'', 0x50),
     (''DOWN'', 0x51), (''DOWNARROW'', 0x51),
     (''UP'', 0x52), (''UPARROW'', 0x52),
     (''NUMLOCK'', 0x53),
     (''APP'', 0x65), (''MENU'', 0x65)]"

text \<open>\<open>k in D\<close> is \<open>map_of D k \<noteq> None\<close>, and \<open>D[k]\<close> after that test is the value found.\<close>

definition MOD_NONE :: int where "MOD_NONE = 0x00"
definition MOD_CTRL :: int where "MOD_CTRL = 0x01"
definition MOD_SHIFT :: int where "MOD_SHIFT = 0x02"
definition MOD_ALT :: int where "MOD_ALT = 0x04"
definition MOD_GUI :: int where "MOD_GUI = 0x08"

section \<open>Encoders\<close>

text \<open>
  \<open>encode_delay\<close>: the \<open>while ms > 0\<close> loop, with the list \<open>result\<close> it extends as
  the second argument.
\<close>

function encode_delay_loop :: "int \<Rightarrow> int list \<Rightarrow> int list" where
  "encode_delay_loop ms result =
     (if ms > 0 then
        (let chunk = min ms 255 in encode_delay_loop (ms - chunk) (result @ [0x00, chunk]))
      else result)"
  by pat_completeness auto
termination
  by (relation "measure (\<lambda>(ms, result). nat ms)") auto

declare encode_delay_loop.simps [simp del]

definition encode_delay :: "int \<Rightarrow> int list" where
  "encode_delay ms = encode_delay_loop ms []"

text \<open>
  The same loop with nothing assumed about its termination: a run that never leaves
  the loop has the value \<open>None\<close>.
\<close>

partial_function (option) encode_delay_while :: "int \<Rightarrow> int list \<Rightarrow> int list option" where
  "encode_delay_while ms result =
     (if ms > 0 then
        (let chunk = min ms 255 in encode_delay_while (ms - chunk) (result @ [0x00, chunk]))
      else Some result)"

declare encode_delay_while.simps [code]

text \<open>
  The delay encoder as the specification words it: while \<open>ms > 0\<close>, emit the pair
  \<open>(0x00, min(ms,255))\<close>, subtract that chunk, and go on; nothing for \<open>ms \<le> 0\<close>.
\<close>

function spec_encodeDelay :: "int \<Rightarrow> int list" where
  "spec_encodeDelay ms =
     (if ms > 0 then [0x00, min ms 255] @ spec_encodeDelay (ms - min ms 255) else [])"
  by pat_completeness auto
termination
  by (relation "measure nat") auto

declare spec_encodeDelay.simps [simp del]

text \<open>
  What the program prints while it compiles: the warnings of \<open>encode_char\<close>,
  \<open>parse_modifier_combo\<close> and of the unknown-command branch, and the error message
  of the \<open>except\<close> handler. The line number is kept where the message has one.
\<close>

datatype diag =
    UnknownCharacter char
  | UnknownKey string
  | UnknownCommand nat string
  | ErrorOnLine nat exn

text \<open>
  \<open>encode_char\<close>: the bytes returned, and what was printed. Function results that
  print are pairs of the value and the messages, in the order printed.
\<close>

definition encode_char :: "char \<Rightarrow> int list \<times> diag list" where
  "encode_char char =
     (case map_of KEYCODES [char] of
        Some k \<Rightarrow> ([k, MOD_NONE], [])
      | None \<Rightarrow>
          (case map_of SHIFT_CHARS [char] of
             Some k \<Rightarrow> ([k, MOD_SHIFT], [])
           | None \<Rightarrow> ([], [UnknownCharacter char])))"

text \<open>\<open>encode_string\<close>: the \<open>for char in text\<close> loop extending \<open>result\<close>.\<close>

definition encode_string_step :: "int list \<times> diag list \<Rightarrow> char \<Rightarrow> int list \<times> diag list" where
  "encode_string_step acc char =
     (case acc of (result, printed) \<Rightarrow>
        (case encode_char char of (bytes, warns) \<Rightarrow> (result @ bytes, printed @ warns)))"

definition encode_string :: "string \<Rightarrow> int list \<times> diag list" where
  "encode_string text = foldl encode_string_step ([], []) text"

definition get_key_code :: "string \<Rightarrow> int option" where
  "get_key_code key_name =
     (case map_of SPECIAL_KEYS (upper key_name) of
        Some k \<Rightarrow> Some k
      | None \<Rightarrow>
          (case map_of KEYCODES (lower key_name) of
             Some k \<Rightarrow> Some k
           | None \<Rightarrow>
               (case map_of SHIFT_CHARS key_name of
                  Some k \<Rightarrow> Some k
                | None \<Rightarrow> None)))"

text \<open>
  The key-name lookup as the specification words it: the upper-cased token against the
  named keys, then the lower-cased token against the unshifted characters, then the
  token as written against the shifted characters; the first table that holds its key
  answers, and the answer is "not found" when none does.
\<close>

fun first_found :: "int option list \<Rightarrow> int option" where
  "first_found [] = None"
| "first_found (Some k # rest) = Some k"
| "first_found (None # rest) = first_found rest"

definition spec_lookup :: "string \<Rightarrow> int option" where
  "spec_lookup token =
     first_found [map_of SPECIAL_KEYS (upper token), map_of KEYCODES (lower token), map_of SHIFT_CHARS token]"

section \<open>Modifier combinations\<close>

text \<open>
  One round of the \<open>for part in parts\<close> loop of \<open>parse_modifier_combo\<close>, on the
  loop's variables \<open>modifier\<close> and \<open>keycode\<close> and the messages printed so far.
  The tests against \<open>('CTRL', 'CONTROL')\<close>, \<open>('ALT', 'OPTION')\<close> and the GUI names
  are memberships in a tuple; \<open>('SHIFT')\<close> in the source is a parenthesised string,
  so that test is Python's substring test on \<open>'SHIFT'\<close>.
\<close>

definition combo_step :: "int \<times> int option \<times> diag list \<Rightarrow> string \<Rightarrow> int \<times> int option \<times> diag list" where
  "combo_step st part =
     (case st of (modifier, keycode, printed) \<Rightarrow>
        (let part_upper = upper part in
         if part_upper \<in> set [''CTRL'', ''CONTROL''] then (modifier OR MOD_CTRL, keycode, printed)
         else if str_contains ''SHIFT'' part_upper then (modifier OR MOD_SHIFT, keycode, printed)
         else if part_upper \<in> set [''ALT'', ''OPTION''] then (modifier OR MOD_ALT, keycode, printed)
         else if part_upper \<in> set [''GUI'', ''WINDOWS'', ''COMMAND'', ''CMD'', ''META'']
           then (modifier OR MOD_GUI, keycode, printed)
         else
           (case get_key_code part of
              None \<Rightarrow> (modifier, None, printed @ [UnknownKey part])
            | Some k \<Rightarrow> (modifier, Some k, printed))))"

definition parse_modifier_combo :: "string \<Rightarrow> int list \<times> diag list" where
  "parse_modifier_combo line =
     (case foldl combo_step (MOD_NONE, None, []) (split line) of
        (modifier, keycode, printed) \<Rightarrow>
          (case keycode of
             Some k \<Rightarrow> ([k, modifier], printed)
           | None \<Rightarrow> if modifier \<noteq> MOD_NONE then ([0x00, modifier], printed) else ([], printed)))"

section \<open>The line dispatcher of compile_script\<close>

text \<open>
  The variables \<open>payload\<close> and \<open>default_delay\<close> of \<open>compile_script\<close>, and the
  messages printed so far.
\<close>

record cstate =
  payload :: "int list"
  default_delay :: int
  console :: "diag list"

text \<open>
  The conditions of the \<open>if\<close>/\<open>elif\<close> chain inside the \<open>try\<close> block, in the order
  of the source; the first that holds names the branch taken.
\<close>

datatype branch =
    DefaultDelayBranch
  | DelayBranch
  | StringBranch
  | StringlnBranch
  | SpecialKeyBranch
  | ModifierBranch
  | RepeatBranch
  | UnknownBranch

definition classify :: "string \<Rightarrow> branch" where
  "classify line =
     (if startswith line ''DEFAULT_DELAY'' \<or> startswith line ''DEFAULTDELAY'' then DefaultDelayBranch
      else if startswith line ''DELAY'' then DelayBranch
      else if startswith line ''STRING '' then StringBranch
      else if startswith line ''STRINGLN '' then StringlnBranch
      else if map_of SPECIAL_KEYS line \<noteq> None then SpecialKeyBranch
      else if list_ex (startswith (upper line))
                [''CTRL'', ''CONTROL'', ''ALT'', ''SHIFT'', ''GUI'', ''WINDOWS'', ''COMMAND'', ''CMD'']
        then ModifierBranch
      else if startswith line ''REPEAT'' \<or> startswith line ''REPLAY'' then RepeatBranch
      else UnknownBranch)"

text \<open>\<open>int(line.split()[1])\<close>.\<close>

definition int_arg :: "string \<Rightarrow> exn + int" where
  "int_arg line = (case split line of a # b # rest \<Rightarrow> py_int b | _ \<Rightarrow> Inl IndexError)"

text \<open>\<open>int(line.split()[1]) if len(line.split()) > 1 else 1\<close>.\<close>

definition repeat_count :: "string \<Rightarrow> exn + int" where
  "repeat_count line = (if length (split line) > 1 then int_arg line else Inr 1)"

text \<open>
  \<open>for _ in range(count): payload.extend(last_instruction)\<close>, for the number of
  rounds \<open>range(count)\<close> has (none for a negative \<open>count\<close>).
\<close>

primrec extend_times :: "nat \<Rightarrow> int list \<Rightarrow> int list \<Rightarrow> int list" where
  "extend_times 0 last_instruction p = p"
| "extend_times (Suc k) last_instruction p = extend_times k last_instruction (p @ last_instruction)"

text \<open>\<open>payload[-2:]\<close> of a payload of at least two bytes.\<close>

definition last_two :: "int list \<Rightarrow> int list" where
  "last_two p = drop (length p - 2) p"

text \<open>
  The body of the \<open>try\<close> block on the trimmed line. Python has no rollback: an
  exception leaves the variables as they are at the \<open>raise\<close>, so the left result holds
  the exception together with the state reached at that point.
\<close>

definition run_command :: "cstate \<Rightarrow> nat \<Rightarrow> string \<Rightarrow> (exn \<times> cstate) + cstate" where
  "run_command s line_num line =
     (case classify line of
        DefaultDelayBranch \<Rightarrow>
          (case int_arg line of
             Inl e \<Rightarrow> Inl (e, s)
           | Inr n \<Rightarrow> Inr (s\<lparr>default_delay := n\<rparr>))
      | DelayBranch \<Rightarrow>
          (case int_arg line of
             Inl e \<Rightarrow> Inl (e, s)
           | Inr delay_ms \<Rightarrow> Inr (s\<lparr>payload := payload s @ encode_delay delay_ms\<rparr>))
      | StringBranch \<Rightarrow>
          (case encode_string (drop 7 line) of
             (bytes, warns) \<Rightarrow>
               Inr (s\<lparr>payload := payload s @ bytes, console := console s @ warns\<rparr>))
      | StringlnBranch \<Rightarrow>
          (case encode_string (drop 9 line) of
             (bytes, warns) \<Rightarrow>
               (let s1 = s\<lparr>payload := payload s @ bytes, console := console s @ warns\<rparr> in
                case map_of SPECIAL_KEYS ''ENTER'' of
                  None \<Rightarrow> Inl (KeyError, s1)
                | Some k \<Rightarrow> Inr (s1\<lparr>payload := payload s1 @ [k, MOD_NONE]\<rparr>)))
      | SpecialKeyBranch \<Rightarrow>
          (case map_of SPECIAL_KEYS line of
             None \<Rightarrow> Inl (KeyError, s)
           | Some k \<Rightarrow> Inr (s\<lparr>payload := payload s @ [k, MOD_NONE]\<rparr>))
      | ModifierBranch \<Rightarrow>
          (case parse_modifier_combo line of
             (result, warns) \<Rightarrow>
               (let s1 = s\<lparr>console := console s @ warns\<rparr> in
                if result \<noteq> [] then Inr (s1\<lparr>payload := payload s1 @ result\<rparr>) else Inr s1))
      | RepeatBranch \<Rightarrow>
          (case repeat_count line of
             Inl e \<Rightarrow> Inl (e, s)
           | Inr count \<Rightarrow>
               if length (payload s) \<ge> 2
               then Inr (s\<lparr>payload := extend_times (nat count) (last_two (payload s)) (payload s)\<rparr>)
               else Inr s)
      | UnknownBranch \<Rightarrow> Inr (s\<lparr>console := console s @ [UnknownCommand line_num line]\<rparr>))"

text \<open>Empty lines and comments, tested on the trimmed line.\<close>

definition skipped :: "string \<Rightarrow> bool" where
  "skipped line = (line = [] \<or> startswith line ''REM'' \<or> startswith line ''//'')"

text \<open>The default delay added between commands, before the \<open>try\<close> block.\<close>

definition add_default_delay :: "cstate \<Rightarrow> cstate" where
  "add_default_delay s =
     (if default_delay s > 0 \<and> payload s \<noteq> []
      then s\<lparr>payload := payload s @ encode_delay (default_delay s)\<rparr>
      else s)"

text \<open>One round of the \<open>for line_num, line in enumerate(lines, 1)\<close> loop.\<close>

definition process_line :: "cstate \<Rightarrow> nat \<Rightarrow> string \<Rightarrow> cstate" where
  "process_line s line_num raw =
     (let line = strip raw in
      if skipped line then s
      else
        (case run_command (add_default_delay s) line_num line of
           Inl (e, s1) \<Rightarrow> s1\<lparr>console := console s1 @ [ErrorOnLine line_num e]\<rparr>
         | Inr s2 \<Rightarrow> s2))"

fun compile_lines :: "cstate \<Rightarrow> nat \<Rightarrow> string list \<Rightarrow> cstate" where
  "compile_lines s line_num [] = s"
| "compile_lines s line_num (raw # rest) = compile_lines (process_line s line_num raw) (Suc line_num) rest"

definition initial_state :: cstate where
  "initial_state = \<lparr>payload = [], default_delay = 0, console = []\<rparr>"

text \<open>
  \<open>compile_script\<close> on the lines read from the input file: the final state, whose
  \<open>payload\<close> is what is written to the output file.
\<close>

definition compile_script :: "string list \<Rightarrow> cstate" where
  "compile_script lines = compile_lines initial_state 1 lines"

section \<open>Evaluation of lines and strings\<close>

lemmas case_tables = upper_def upper_char_def lower_def lower_char_def ascii_lowercase_def ascii_uppercase_def

lemmas line_eval = strip_def split_def is_space_def skipped_def classify_def SPECIAL_KEYS_def case_tables
  repeat_count_def int_arg_def py_int_def int_unsigned_def is_digit_def digit_val_def

lemmas string_eval = encode_string_def encode_string_step_def encode_char_def KEYCODES_def SHIFT_CHARS_def
  MOD_NONE_def MOD_SHIFT_def

lemmas script_eval = compile_script_def initial_state_def process_line_def run_command_def
  add_default_delay_def

section \<open>The delay encoder\<close>

lemma encode_delay_loop_append:
  "encode_delay_loop ms result = result @ spec_encodeDelay ms"
proof (induction ms result rule: encode_delay_loop.induct)
  case (1 ms result)
  show ?case
  proof (cases "ms > 0")
    case True
    have "encode_delay_loop ms result = encode_delay_loop (ms - min ms 255) (result @ [0, min ms 255])"
      using True by (subst encode_delay_loop.simps) (simp add: Let_def)
    also have "\<dots> = (result @ [0, min ms 255]) @ spec_encodeDelay (ms - min ms 255)"
      using True "1.IH" [of "min ms 255"] by simp
    also have "\<dots> = result @ spec_encodeDelay ms"
      using True by (subst (2) spec_encodeDelay.simps) simp
    finally show ?thesis .
  next
    case False
    then show ?thesis
      by (subst encode_delay_loop.simps, subst spec_encodeDelay.simps) simp
  qed
qed

text \<open>
  C6: for every integer \<open>ms\<close>, \<open>encode_delay ms\<close> is the byte sequence the
  specification describes (emit \<open>(0x00, min(ms,255))\<close>, subtract the chunk, repeat while
  \<open>ms > 0\<close>), it is empty for \<open>ms \<le> 0\<close>, and \<open>encode_delay 300 = [0,255,0,45]\<close>,
  \<open>encode_delay 0 = []\<close>, \<open>encode_delay 255 = [0,255]\<close>.
\<close>

theorem encode_delay_refines_spec:
  "encode_delay ms = spec_encodeDelay ms
   \<and> (ms \<le> 0 \<longrightarrow> encode_delay ms = [])
   \<and> encode_delay 300 = [0, 255, 0, 45]
   \<and> encode_delay 0 = []
   \<and> encode_delay 255 = [0, 255]"
  by (simp add: encode_delay_def encode_delay_loop.simps [of 300] encode_delay_loop.simps [of 45]
      encode_delay_loop.simps [of 0] encode_delay_loop.simps [of 255] encode_delay_loop_append [of ms]
      spec_encodeDelay.simps [of ms])

theorem encode_delay_refines_spec_witness:
  "(- 7 :: int) \<le> 0 \<and> encode_delay (- 7) = []"
proof -
  have neg: "(- 7 :: int) \<le> 0" by simp
  with encode_delay_refines_spec [of "- 7"] show ?thesis by blast
qed

lemma length_spec_encodeDelay: "length (spec_encodeDelay ms) = 2 * nat ((ms + 254) div 255)"
proof (induction ms rule: spec_encodeDelay.induct)
  case (1 ms)
  show ?case
  proof (cases "ms > 0")
    case False
    then have "(ms + 254) div 255 \<le> 0" by simp
    with False show ?thesis by (subst spec_encodeDelay.simps) simp
  next
    case True
    show ?thesis
    proof (cases "ms \<le> 255")
      case True
      with \<open>ms > 0\<close> have "(ms + 254) div 255 = 1" by simp
      with True \<open>ms > 0\<close> show ?thesis
        by (subst spec_encodeDelay.simps, subst spec_encodeDelay.simps) simp
    next
      case False
      then have big: "min ms 255 = 255" by simp
      have "(ms + 254) div 255 = (ms - 255 + 254) div 255 + 1" by simp
      moreover have "0 \<le> (ms - 255 + 254) div 255" using False by simp
      ultimately have "nat ((ms + 254) div 255) = Suc (nat ((ms - 255 + 254) div 255))" by simp
      with "1.IH" \<open>ms > 0\<close> big show ?thesis
        by (subst spec_encodeDelay.simps) simp
    qed
  qed
qed

text \<open>
  C9: the chunking loop of \<open>encode_delay\<close> terminates on every integer \<open>ms\<close> (and every
  list accumulated so far): the loop run without any termination assumption returns a
  value, the one of the total function. It makes \<open>(ms + 254) div 255\<close> rounds for a
  positive \<open>ms\<close> and none otherwise, each round adding two bytes.
\<close>

theorem encode_delay_while_returns:
  "encode_delay_while ms result = Some (encode_delay_loop ms result)
   \<and> length (encode_delay_loop ms result) = length result + 2 * nat ((ms + 254) div 255)"
proof
  show "encode_delay_while ms result = Some (encode_delay_loop ms result)"
  proof (induction ms result rule: encode_delay_loop.induct)
    case (1 ms result)
    show ?case
    proof (cases "ms > 0")
      case True
      then show ?thesis
        using "1.IH" [of "min ms 255"]
        by (subst encode_delay_while.simps, subst encode_delay_loop.simps) (simp add: Let_def)
    next
      case False
      then show ?thesis
        by (subst encode_delay_while.simps, subst encode_delay_loop.simps) simp
    qed
  qed
  show "length (encode_delay_loop ms result) = length result + 2 * nat ((ms + 254) div 255)"
    by (simp add: encode_delay_loop_append length_spec_encodeDelay)
qed

section \<open>Every instruction is two bytes\<close>

lemma even_length_spec_encodeDelay: "even (length (spec_encodeDelay ms))"
proof (induction ms rule: spec_encodeDelay.induct)
  case (1 ms)
  then show ?case by (subst spec_encodeDelay.simps) simp
qed

lemma even_length_encode_delay: "even (length (encode_delay ms))"
  by (simp add: encode_delay_def encode_delay_loop_append even_length_spec_encodeDelay)

lemma even_length_encode_char: "even (length (fst (encode_char c)))"
  by (simp add: encode_char_def split: option.splits)

lemma encode_string_step_fold_even:
  "even (length (fst acc)) \<Longrightarrow> even (length (fst (foldl encode_string_step acc str)))"
proof (induction str arbitrary: acc)
  case Nil
  then show ?case by simp
next
  case (Cons c cs)
  have "even (length (fst (encode_string_step acc c)))"
    using Cons.prems even_length_encode_char [of c]
    by (simp add: encode_string_step_def case_prod_beta)
  then show ?case using Cons.IH by simp
qed

lemma even_length_encode_string: "even (length (fst (encode_string str)))"
  by (simp add: encode_string_def encode_string_step_fold_even)

lemma even_length_parse_modifier_combo: "even (length (fst (parse_modifier_combo line)))"
  by (simp add: parse_modifier_combo_def case_prod_beta split: option.splits)

lemma extend_times_concat:
  "extend_times k ins p = p @ concat (replicate k ins)"
proof (induction k arbitrary: p)
  case 0
  show ?case by simp
next
  case (Suc k)
  have "concat (replicate k ins) @ ins = ins @ concat (replicate k ins)"
    by (induction k) simp_all
  then show ?case using Suc by simp
qed

lemma length_extend_times: "length (extend_times k ins p) = length p + k * length ins"
  by (simp add: extend_times_concat length_concat sum_list_replicate)

lemma length_last_two: "2 \<le> length p \<Longrightarrow> length (last_two p) = 2"
  by (simp add: last_two_def)

lemma enter_code: "map_of SPECIAL_KEYS ''ENTER'' = Some 0x28"
  by (simp add: SPECIAL_KEYS_def)

lemma run_command_appends:
  "case run_command s n line of
     Inl (e, s1) \<Rightarrow> \<exists>bs. payload s1 = payload s @ bs \<and> even (length bs)
   | Inr s2 \<Rightarrow> \<exists>bs. payload s2 = payload s @ bs \<and> even (length bs)"
proof (cases "classify line")
  case DefaultDelayBranch
  then show ?thesis by (simp add: run_command_def split: sum.split)
next
  case DelayBranch
  then show ?thesis
    by (simp add: run_command_def even_length_encode_delay split: sum.split)
next
  case StringBranch
  then show ?thesis using even_length_encode_string [of "drop 7 line"]
    by (simp add: run_command_def case_prod_beta)
next
  case StringlnBranch
  then show ?thesis using even_length_encode_string [of "drop 9 line"]
    by (simp add: run_command_def enter_code case_prod_beta)
next
  case SpecialKeyBranch
  then show ?thesis by (simp add: run_command_def split: option.split)
next
  case ModifierBranch
  then show ?thesis using even_length_parse_modifier_combo [of line]
    by (simp add: run_command_def Let_def case_prod_beta)
next
  case RepeatBranch
  have "even (length (concat (replicate k (last_two (payload s)))))" if "2 \<le> length (payload s)" for k
    using length_last_two [OF that] by (simp add: length_concat sum_list_replicate)
  with RepeatBranch show ?thesis
    by (simp add: run_command_def extend_times_concat split: sum.split)
next
  case UnknownBranch
  then show ?thesis by (simp add: run_command_def)
qed

lemma add_default_delay_appends:
  "\<exists>bs. payload (add_default_delay s) = payload s @ bs \<and> even (length bs)"
  by (simp add: add_default_delay_def even_length_encode_delay)

lemma process_line_appends:
  "\<exists>bs. payload (process_line s n raw) = payload s @ bs \<and> even (length bs)"
proof (cases "skipped (strip raw)")
  case True
  then show ?thesis by (simp add: process_line_def)
next
  case False
  obtain ds where ds: "payload (add_default_delay s) = payload s @ ds" "even (length ds)"
    using add_default_delay_appends [of s] by blast
  have "\<exists>cs. payload (process_line s n raw) = payload (add_default_delay s) @ cs \<and> even (length cs)"
    using False run_command_appends [of "add_default_delay s" n "strip raw"]
    by (simp add: process_line_def split: sum.splits prod.splits)
  then obtain cs where cs: "payload (process_line s n raw) = payload (add_default_delay s) @ cs"
    "even (length cs)" by blast
  from ds cs have "payload (process_line s n raw) = payload s @ (ds @ cs) \<and> even (length (ds @ cs))"
    by simp
  then show ?thesis by blast
qed

lemma process_line_even:
  assumes "even (length (payload s))"
  shows "even (length (payload (process_line s n raw)))"
proof -
  obtain bs where "payload (process_line s n raw) = payload s @ bs" and "even (length bs)"
    using process_line_appends [of s n raw] by blast
  with assms show ?thesis by simp
qed

lemma compile_lines_even:
  "even (length (payload s)) \<Longrightarrow> even (length (payload (compile_lines s n lines)))"
  by (induction lines arbitrary: s n) (simp_all add: process_line_even)

text \<open>
  C8: the payload length is always even. Starting from the empty payload, after the
  dispatcher has processed any script, and so any prefix \<open>take k lines\<close> of any script,
  the payload holds an even number of bytes; and every line, in any state, only
  appends to the payload, a whole number of two-byte instructions.
\<close>

theorem payload_length_even:
  "even (length (payload (compile_script lines)))
   \<and> even (length (payload (compile_script (take k lines))))
   \<and> (\<exists>bs. payload (process_line s n raw) = payload s @ bs \<and> even (length bs))"
proof -
  have start: "even (length (payload initial_state))"
    by (simp add: initial_state_def)
  have "even (length (payload (compile_lines initial_state 1 ls)))" for ls
    using start by (rule compile_lines_even)
  then have "even (length (payload (compile_script ls)))" for ls
    by (simp add: compile_script_def)
  then show ?thesis using process_line_appends [of s n raw] by blast
qed

section \<open>Which branch a line takes\<close>


lemma classify_string: "classify (''STRING '' @ t) = StringBranch"
  by (simp add: classify_def)

lemma not_skipped_string: "\<not> skipped (''STRING '' @ t)"
  by (simp add: skipped_def)





section \<open>REPEAT and REPLAY\<close>






section \<open>STRING\<close>

lemma strip_last_not_space: "strip s \<noteq> [] \<Longrightarrow> \<not> is_space (last (strip s))"
proof -
  assume nonempty: "strip s \<noteq> []"
  let ?r = "dropWhile is_space (rev (dropWhile is_space s))"
  from nonempty have "?r \<noteq> []" by (simp add: strip_def)
  then have "\<not> is_space (hd ?r)" by (rule hd_dropWhile)
  moreover have "last (strip s) = hd ?r"
    using \<open>?r \<noteq> []\<close> by (simp add: strip_def last_rev)
  ultimately show ?thesis by simp
qed

lemma string_line_step:
  assumes "strip raw = ''STRING '' @ body"
  shows "process_line s n raw
           = (add_default_delay s)\<lparr>payload := payload (add_default_delay s) @ fst (encode_string body),
                console := console (add_default_delay s) @ snd (encode_string body)\<rparr>"
  using assms classify_string [of body] not_skipped_string [of body]
  by (simp add: process_line_def run_command_def case_prod_beta)

text \<open>
  C3 as stated fails: for the line \<open>STRING\<close>, a space, and the text \<open>" a "\<close>, the bytes
  appended are not those of \<open>" a "\<close>: the trailing space is gone, because the line is
  trimmed before it is examined.
\<close>

theorem string_text_counterexample:
  "payload (compile_script [''STRING '' @ '' a '']) = [0x2c, 0, 0x04, 0]
   \<and> fst (encode_string '' a '') = [0x2c, 0, 0x04, 0, 0x2c, 0]
   \<and> payload (compile_script [''STRING '' @ '' a '']) \<noteq> fst (encode_string '' a '')"
  by (simp add: compile_script_def initial_state_def process_line_def run_command_def
      add_default_delay_def string_eval line_eval)

text \<open>
  C3, amended: for every line whose trimmed form is \<open>STRING\<close>, one space, and a text,
  the dispatcher appends (after the default delay of the line, if any) the encoding
  of that text, which is everything after the first space following the keyword in
  the trimmed line. Leading spaces of the text are kept and only the separating space
  is consumed; the text is not empty and never ends in white space, since the trim
  removed it. The line \<open>"STRING  a "\<close> encodes the text \<open>" a"\<close>.
\<close>

theorem string_text_after_trim:
  assumes "strip raw = ''STRING '' @ body"
  shows "payload (process_line s n raw) = payload (add_default_delay s) @ fst (encode_string body)
         \<and> default_delay (process_line s n raw) = default_delay s
         \<and> body \<noteq> [] \<and> \<not> is_space (last body)
         \<and> payload (compile_script [''STRING  a '']) = fst (encode_string '' a'')"
proof -
  have nonempty: "strip raw \<noteq> []" using assms by simp
  have body: "body \<noteq> []"
  proof
    assume "body = []"
    with assms have "last (strip raw) = CHR '' ''" by simp
    with strip_last_not_space [OF nonempty] show False by (simp add: is_space_def)
  qed
  then have "last (strip raw) = last body" using assms by simp
  with strip_last_not_space [OF nonempty] have tail: "\<not> is_space (last body)" by simp
  have ex: "payload (compile_script [''STRING  a '']) = fst (encode_string '' a'')"
    by (simp add: compile_script_def initial_state_def process_line_def run_command_def
        add_default_delay_def string_eval line_eval)
  show ?thesis
    using string_line_step [OF assms, of s n] body tail ex by (simp add: add_default_delay_def)
qed

theorem string_text_after_trim_witness:
  "payload (process_line \<lparr>payload = [4, 0], default_delay = 0, console = []\<rparr> 2 ''  STRING  Hi  '')
     = [4, 0] @ fst (encode_string '' Hi'')"
  using string_text_after_trim
    [of "''  STRING  Hi  ''" "'' Hi''" "\<lparr>payload = [4, 0], default_delay = 0, console = []\<rparr>" 2]
  by (simp add: line_eval add_default_delay_def)

section \<open>Lines that fail\<close>

lemma special_key_branch_found: "classify l = SpecialKeyBranch \<Longrightarrow> map_of SPECIAL_KEYS l \<noteq> None"
  by (simp add: classify_def split: if_splits)

lemma run_command_raise:
  assumes "run_command s n l = Inl (e, s1)"
  shows "s1 = s"
proof (cases "classify l")
  case SpecialKeyBranch
  with special_key_branch_found [of l] assms show ?thesis
    by (auto simp: run_command_def split: option.splits)
qed (use assms in \<open>auto simp: run_command_def enter_code Let_def case_prod_beta split: sum.splits if_splits\<close>)

lemma run_command_raises_iff:
  "(\<exists>s1. run_command s n l = Inl (e, s1)) \<longleftrightarrow>
     (classify l = DefaultDelayBranch \<or> classify l = DelayBranch) \<and> int_arg l = Inl e
     \<or> classify l = RepeatBranch \<and> repeat_count l = Inl e"
proof (cases "classify l")
  case SpecialKeyBranch
  with special_key_branch_found [of l] show ?thesis
    by (auto simp: run_command_def split: option.splits)
qed (auto simp: run_command_def enter_code Let_def case_prod_beta split: sum.splits if_splits)




section \<open>The default delay\<close>

lemma encode_delay_nonempty: "0 < ms \<Longrightarrow> encode_delay ms \<noteq> []"
  by (simp add: encode_delay_def encode_delay_loop_append spec_encodeDelay.simps [of ms])

lemma encode_delay_100: "encode_delay 100 = [0, 100]"
  by (simp add: encode_delay_def encode_delay_loop.simps [of 100] encode_delay_loop.simps [of 0])

lemma default_delay_line: "process_line initial_state n ''DEFAULT_DELAY 100'' = initial_state\<lparr>default_delay := 100\<rparr>"
  by (simp add: initial_state_def process_line_def run_command_def add_default_delay_def line_eval)

text \<open>
  C5: with a positive default delay, in a state the dispatcher reaches (even payload
  length), the step before the \<open>try\<close> block appends \<open>encode_delay default_delay\<close>, which
  is not empty, if the payload holds at least one instruction, and leaves the state as
  it is otherwise; the command of every line that is not skipped runs on the state so
  obtained, so the first instruction of a script has no delay before it. Compiling
  \<open>DEFAULT_DELAY 100\<close> and then two \<open>STRING\<close> lines, the first of which encodes to at
  least one instruction, gives the bytes of the first string, one pair \<open>[0, 100]\<close>, and
  the bytes of the second string.
\<close>

theorem default_delay_between_commands:
  "(0 < default_delay s \<and> even (length (payload s)) \<longrightarrow>
      add_default_delay s
        = (if 2 \<le> length (payload s) then s\<lparr>payload := payload s @ encode_delay (default_delay s)\<rparr> else s)
      \<and> encode_delay (default_delay s) \<noteq> [])
   \<and> (\<not> skipped (strip raw) \<longrightarrow>
      process_line s n raw
        = (case run_command (add_default_delay s) n (strip raw) of
             Inl (e, s1) \<Rightarrow> s1\<lparr>console := console s1 @ [ErrorOnLine n e]\<rparr>
           | Inr s2 \<Rightarrow> s2))
   \<and> (strip l1 = ''STRING '' @ t1 \<and> strip l2 = ''STRING '' @ t2 \<and> fst (encode_string t1) \<noteq> [] \<longrightarrow>
      payload (compile_script [''DEFAULT_DELAY 100'', l1, l2])
        = fst (encode_string t1) @ [0, 100] @ fst (encode_string t2))
   \<and> payload (compile_script [''DEFAULT_DELAY 100'', ''STRING a'', ''STRING b'']) = [4, 0, 0, 100, 5, 0]"
proof -
  have step2: "add_default_delay s
        = (if 2 \<le> length (payload s) then s\<lparr>payload := payload s @ encode_delay (default_delay s)\<rparr> else s)"
    if "0 < default_delay s" and "even (length (payload s))"
  proof (cases "payload s")
    case Nil
    then show ?thesis by (simp add: add_default_delay_def)
  next
    case (Cons b bs)
    with that(2) have "2 \<le> length (payload s)" by (cases bs) simp_all
    with that(1) Cons show ?thesis by (simp add: add_default_delay_def)
  qed
  have own: "process_line s n raw
        = (case run_command (add_default_delay s) n (strip raw) of
             Inl (e, s1) \<Rightarrow> s1\<lparr>console := console s1 @ [ErrorOnLine n e]\<rparr>
           | Inr s2 \<Rightarrow> s2)"
    if "\<not> skipped (strip raw)"
    using that by (simp add: process_line_def)
  have two: "payload (compile_script [''DEFAULT_DELAY 100'', l1, l2])
        = fst (encode_string t1) @ [0, 100] @ fst (encode_string t2)"
    if "strip l1 = ''STRING '' @ t1" and "strip l2 = ''STRING '' @ t2" and "fst (encode_string t1) \<noteq> []"
  proof -
    have "\<exists>i j. compile_script [''DEFAULT_DELAY 100'', l1, l2]
        = process_line (process_line (initial_state\<lparr>default_delay := 100\<rparr>) i l1) j l2"
      by (simp add: compile_script_def default_delay_line, blast)
    then obtain i j where "compile_script [''DEFAULT_DELAY 100'', l1, l2]
        = process_line (process_line (initial_state\<lparr>default_delay := 100\<rparr>) i l1) j l2"
      by blast
    then show ?thesis
      using that(3)
      by (simp add: string_line_step [OF that(1)] string_line_step [OF that(2)]
          add_default_delay_def initial_state_def encode_delay_100)
  qed
  have ex: "payload (compile_script [''DEFAULT_DELAY 100'', ''STRING a'', ''STRING b'']) = [4, 0, 0, 100, 5, 0]"
    by (simp add: script_eval string_eval line_eval encode_delay_100)
  show ?thesis using step2 encode_delay_nonempty [of "default_delay s"] own two ex by blast
qed

theorem default_delay_between_commands_witness:
  "add_default_delay \<lparr>payload = [4, 0], default_delay = 100, console = []\<rparr>
     = \<lparr>payload = [4, 0, 0, 100], default_delay = 100, console = []\<rparr>
   \<and> process_line \<lparr>payload = [4, 0], default_delay = 100, console = []\<rparr> 3 ''ENTER''
     = \<lparr>payload = [4, 0, 0, 100, 0x28, 0], default_delay = 100, console = []\<rparr>
   \<and> payload (compile_script [''DEFAULT_DELAY 100'', '' STRING Hi'', ''STRING  !  ''])
     = fst (encode_string ''Hi'') @ [0, 100] @ fst (encode_string '' !'')"
proof -
  let ?s = "\<lparr>payload = [4, 0], default_delay = 100, console = []\<rparr>"
  have h1: "0 < default_delay ?s \<and> even (length (payload ?s))" by simp
  have h2: "\<not> skipped (strip ''ENTER'')" by (simp add: line_eval)
  have h3: "strip '' STRING Hi'' = ''STRING '' @ ''Hi'' \<and> strip ''STRING  !  '' = ''STRING '' @ '' !''
      \<and> fst (encode_string ''Hi'') \<noteq> []"
    by (simp add: line_eval string_eval)
  have run: "run_command \<lparr>payload = [4, 0, 0, 100], default_delay = 100, console = []\<rparr> 3 ''ENTER''
      = Inr \<lparr>payload = [4, 0, 0, 100, 0x28, 0], default_delay = 100, console = []\<rparr>"
    by (simp add: run_command_def line_eval MOD_NONE_def)
  have trimmed: "strip ''ENTER'' = ''ENTER''" by (simp add: line_eval)
  from default_delay_between_commands [of ?s "''ENTER''" 3 "'' STRING Hi''" "''Hi''" "''STRING  !  ''" "'' !''"]
  have "add_default_delay ?s = ?s\<lparr>payload := payload ?s @ encode_delay (default_delay ?s)\<rparr>"
    and "process_line ?s 3 ''ENTER''
        = (case run_command (add_default_delay ?s) 3 (strip ''ENTER'') of
             Inl (e, s1) \<Rightarrow> s1\<lparr>console := console s1 @ [ErrorOnLine 3 e]\<rparr>
           | Inr s2 \<Rightarrow> s2)"
    and "payload (compile_script [''DEFAULT_DELAY 100'', '' STRING Hi'', ''STRING  !  ''])
        = fst (encode_string ''Hi'') @ [0, 100] @ fst (encode_string '' !'')"
    using h1 h2 h3 by simp_all
  then show ?thesis using run trimmed by (simp add: encode_delay_100)
qed

section \<open>Key names and modifier words\<close>

lemma upper_char_idem: "upper_char (upper_char c) = upper_char c"
  by (simp add: upper_char_def ascii_lowercase_def ascii_uppercase_def)

lemma upper_lower_char: "upper_char (lower_char c) = upper_char c"
  by (simp add: upper_char_def lower_char_def ascii_lowercase_def ascii_uppercase_def)

lemma upper_idem: "upper (upper k) = upper k"
  by (simp add: upper_def upper_char_idem)

lemma upper_lower: "upper (lower k) = upper k"
  by (simp add: upper_def lower_def upper_lower_char)

lemma get_key_code_special:
  "map_of SPECIAL_KEYS (upper k) = Some c \<Longrightarrow> get_key_code k = Some c"
  by (simp add: get_key_code_def)

text \<open>
  C7: \<open>get_key_code\<close> is the lookup of the specification: the upper-cased token in the
  named keys first, then the lower-cased token in the unshifted characters, then the
  token as written in the shifted characters. For a recognized special-key name the
  result does not depend on letter case (\<open>enter\<close>, \<open>ENTER\<close> and \<open>Enter\<close> all give 0x28).
  When no table holds the token the result is the value \<open>None\<close>; the function is total
  and raises nothing.
\<close>

theorem get_key_code_lookup_order:
  "get_key_code k = spec_lookup k
   \<and> (upper a = upper b \<and> map_of SPECIAL_KEYS (upper a) \<noteq> None \<longrightarrow>
        get_key_code a = get_key_code b \<and> get_key_code a = map_of SPECIAL_KEYS (upper a))
   \<and> (map_of SPECIAL_KEYS (upper w) \<noteq> None \<longrightarrow>
        get_key_code (upper w) = get_key_code w \<and> get_key_code (lower w) = get_key_code w)
   \<and> get_key_code ''enter'' = Some 0x28 \<and> get_key_code ''ENTER'' = Some 0x28
   \<and> get_key_code ''Enter'' = Some 0x28
   \<and> (map_of SPECIAL_KEYS (upper u) = None \<and> map_of KEYCODES (lower u) = None
        \<and> map_of SHIFT_CHARS u = None \<longrightarrow> get_key_code u = None)"
proof -
  have order: "get_key_code k = spec_lookup k"
    by (simp add: get_key_code_def spec_lookup_def split: option.splits)
  have same: "get_key_code a = get_key_code b \<and> get_key_code a = map_of SPECIAL_KEYS (upper a)"
    if "upper a = upper b" and "map_of SPECIAL_KEYS (upper a) \<noteq> None"
    using that get_key_code_special [of a] get_key_code_special [of b] by auto
  have cased: "get_key_code (upper w) = get_key_code w \<and> get_key_code (lower w) = get_key_code w"
    if "map_of SPECIAL_KEYS (upper w) \<noteq> None"
    using that get_key_code_special [of w] get_key_code_special [of "upper w"]
      get_key_code_special [of "lower w"]
    by (auto simp: upper_idem upper_lower)
  have enter: "get_key_code ''enter'' = Some 0x28 \<and> get_key_code ''ENTER'' = Some 0x28
      \<and> get_key_code ''Enter'' = Some 0x28"
    by (simp add: get_key_code_def SPECIAL_KEYS_def case_tables)
  have absent: "get_key_code u = None"
    if "map_of SPECIAL_KEYS (upper u) = None" and "map_of KEYCODES (lower u) = None"
      and "map_of SHIFT_CHARS u = None"
    using that by (simp add: get_key_code_def)
  show ?thesis using order same cased enter absent by blast
qed

theorem get_key_code_lookup_order_witness:
  "get_key_code ''Tab'' = get_key_code ''tAB'' \<and> get_key_code ''Tab'' = Some 0x2b
   \<and> get_key_code ''TAB'' = get_key_code ''Tab'' \<and> get_key_code ''tab'' = get_key_code ''Tab''
   \<and> get_key_code ''zz'' = None"
proof -
  have h1: "upper ''Tab'' = upper ''tAB'' \<and> map_of SPECIAL_KEYS (upper ''Tab'') \<noteq> None"
    by (simp add: SPECIAL_KEYS_def case_tables)
  have h2: "map_of SPECIAL_KEYS (upper ''zz'') = None \<and> map_of KEYCODES (lower ''zz'') = None
      \<and> map_of SHIFT_CHARS ''zz'' = None"
    by (simp add: SPECIAL_KEYS_def KEYCODES_def SHIFT_CHARS_def case_tables)
  have v1: "map_of SPECIAL_KEYS (upper ''Tab'') = Some 0x2b"
    by (simp add: SPECIAL_KEYS_def case_tables)
  have v2: "upper ''Tab'' = ''TAB''" and v3: "lower ''Tab'' = ''tab''"
    by (simp_all add: case_tables)
  from get_key_code_lookup_order [of "''Tab''" "''Tab''" "''tAB''" "''Tab''" "''zz''"] h1 h2
  have r1: "get_key_code ''Tab'' = get_key_code ''tAB''"
    and r2: "get_key_code ''Tab'' = map_of SPECIAL_KEYS (upper ''Tab'')"
    and r3: "get_key_code (upper ''Tab'') = get_key_code ''Tab''"
    and r4: "get_key_code (lower ''Tab'') = get_key_code ''Tab''"
    and r5: "get_key_code ''zz'' = None"
    by blast+
  from r2 v1 have "get_key_code ''Tab'' = Some 0x2b" by (rule trans)
  moreover from r3 have "get_key_code ''TAB'' = get_key_code ''Tab''" by (simp only: v2)
  moreover from r4 have "get_key_code ''tab'' = get_key_code ''Tab''" by (simp only: v3)
  ultimately show ?thesis using r1 r5 by blast
qed

text \<open>
  C1 (the code departs from it): in the line \<open>CTRL S\<close> the token \<open>S\<close> is not the word
  \<open>SHIFT\<close> in any letter case and resolves to key code 0x16 in the symbol tables; yet
  \<open>parse_modifier_combo\<close> sets the shift bit for it and resolves no key, returning
  \<open>[0x00, 0x03]\<close> (control and shift, no key) in place of \<open>[0x16, 0x01]\<close>.
\<close>

theorem shift_test_is_substring_test:
  "split ''CTRL S'' = [''CTRL'', ''S'']
   \<and> upper ''S'' \<noteq> ''SHIFT''
   \<and> get_key_code ''S'' = Some 0x16
   \<and> parse_modifier_combo ''CTRL S'' = ([0x00, 0x03], [])
   \<and> payload (compile_script [''CTRL S'']) = [0x00, 0x03]"
  by (simp add: script_eval line_eval parse_modifier_combo_def combo_step_def get_key_code_def
      KEYCODES_def MOD_NONE_def MOD_CTRL_def MOD_SHIFT_def)

end
